theory Spec2Isabelle
  imports Main "HOL-Library.Sublist" "HOL-Library.AList"
begin

section \<open>Strings\<close>

text \<open>
  JavaScript strings are modelled as lists of 8-bit characters, read as the code points
  U+0000 to U+00FF (Latin-1). On this range \<open>String.prototype.toLowerCase\<close> maps
  A-Z and the accented capitals U+00C0 to U+00DE (except the multiplication sign U+00D7)
  to the character 32 places later, the regular expression class \<open>\s\<close> and
  \<open>String.prototype.trim\<close> both recognise TAB, LF, VT, FF, CR, SPACE and NBSP, and
  \<open>\w\<close> is \<open>[A-Za-z0-9_]\<close>.
\<close>

definition isWhiteSpace :: "char \<Rightarrow> bool" where
  "isWhiteSpace c = (let n = (of_char c :: nat) in (9 \<le> n \<and> n \<le> 13) \<or> n = 32 \<or> n = 160)"

definition isWordChar :: "char \<Rightarrow> bool" where
  "isWordChar c = (let n = (of_char c :: nat) in
     (48 \<le> n \<and> n \<le> 57) \<or> (65 \<le> n \<and> n \<le> 90) \<or> n = 95 \<or> (97 \<le> n \<and> n \<le> 122))"

definition toLowerChar :: "char \<Rightarrow> char" where
  "toLowerChar c = (let n = (of_char c :: nat) in
     if (65 \<le> n \<and> n \<le> 90) \<or> (192 \<le> n \<and> n \<le> 222 \<and> n \<noteq> 215)
     then char_of (n + 32) else c)"

definition toLowerCase :: "string \<Rightarrow> string" where
  "toLowerCase s = map toLowerChar s"

definition trim :: "string \<Rightarrow> string" where
  "trim s = rev (dropWhile isWhiteSpace (rev (dropWhile isWhiteSpace s)))"

text \<open>\<open>str_includes s k\<close> is \<open>s.includes(k)\<close>: \<open>k\<close> occurs in \<open>s\<close> as a contiguous run.\<close>

fun str_includes :: "string \<Rightarrow> string \<Rightarrow> bool" where
  "str_includes [] k = (k = [])"
| "str_includes (c # cs) k = (prefix k (c # cs) \<or> str_includes cs k)"

text \<open>
  \<open>split_ws\<close> is \<open>s.split(/\s+/)\<close>: the pieces between maximal runs of white space,
  with an empty piece before a leading run and after a trailing one. The flag says
  whether the previous character belonged to a run, the accumulator holds the current
  piece reversed.
\<close>

fun split_from :: "bool \<Rightarrow> string \<Rightarrow> string \<Rightarrow> string list" where
  "split_from inRun cur [] = [rev cur]"
| "split_from inRun cur (c # cs) =
     (if isWhiteSpace c
      then (if inRun then split_from True cur cs else rev cur # split_from True [] cs)
      else split_from False (c # cur) cs)"

definition split_ws :: "string \<Rightarrow> string list" where
  "split_ws s = split_from False [] s"

text \<open>Decimal rendering of a number inside a template literal.\<close>

definition digit_char :: "nat \<Rightarrow> char" where
  "digit_char d = char_of (48 + d)"

fun string_of_nat :: "nat \<Rightarrow> string" where
  "string_of_nat n =
     (if n < 10 then [digit_char n] else string_of_nat (n div 10) @ [digit_char (n mod 10)])"

section \<open>Data model\<close>

text \<open>
  An academic as \<open>demoSearch\<close> reads it. Every field may be absent (\<open>None\<close> is
  \<open>undefined\<close>). Papers and events are objects of which only the title is read;
  taxonomies are an object from category to an array of values, kept as an association
  list in the order \<open>for ... in\<close> visits the keys.
\<close>

record entry =
  title :: string

record academic =
  name :: "string option"
  bio :: "string option"
  taxonomies :: "(string \<times> string list) list option"
  papers :: "entry list option"
  events :: "entry list option"
  connections :: "string list option"

text \<open>The keys of a JavaScript object are pairwise different.\<close>

definition wf_academic :: "academic \<Rightarrow> bool" where
  "wf_academic a = (case taxonomies a of None \<Rightarrow> True | Some tx \<Rightarrow> distinct (map fst tx))"

datatype error = TypeError | EmptySearchQuery | ApiError string

text \<open>
  The settlement of a promise. \<open>demoSearch\<close> does its work in a \<open>setTimeout\<close> callback
  and only ever calls \<open>resolve\<close>; an exception raised in the callback is not caught by
  the promise, which then stays pending for ever (\<open>NeverSettles\<close>).
\<close>

datatype 'a promise = Resolved 'a | Rejected error | NeverSettles

record scored =
  academic_of :: academic
  score :: nat

record sharedTaxonomy =
  category :: string
  shared_values :: "string list"

record connection =
  academicA :: "string option"
  academicB :: "string option"
  isDirectlyConnected :: bool
  sharedTaxonomies :: "sharedTaxonomy list"
  strength :: nat

text \<open>
  The relevance of a match is the text \<open>(score / max * 100).toFixed(1) + '%'\<close>, a
  floating-point quotient rounded to one decimal. It is kept as the pair of the two
  integers it is computed from.
\<close>

datatype relevance = PercentOf nat nat

record result_match =
  match_name :: "string option"
  match_score :: nat
  match_relevance :: relevance

record results =
  res_query :: string
  res_timestamp :: string
  res_matches :: "result_match list option"
  res_connections :: "connection list option"
  res_analysis :: string

section \<open>demoSearch\<close>

text \<open>Lines 168 to 171: the keywords of a query.\<close>

definition keywords_of :: "string \<Rightarrow> string list" where
  "keywords_of query =
     map (filter isWordChar) (filter (\<lambda>word. length word > 3) (split_ws (toLowerCase query)))"

text \<open>
  Lines 180 to 227: the score of one academic. Scores are JavaScript numbers; the sums
  stay far below \<open>2^53\<close>, where they are exact, and are modelled as naturals.
  \<open>academic.name.toLowerCase()\<close> raises a TypeError when the name is missing.
\<close>

definition add_hits :: "nat \<Rightarrow> string list \<Rightarrow> string \<Rightarrow> nat \<Rightarrow> nat" where
  "add_hits w keywords text s = fold (\<lambda>keyword s. if str_includes text keyword then s + w else s) keywords s"

definition score_academic :: "string list \<Rightarrow> academic \<Rightarrow> error + nat" where
  "score_academic keywords a =
     (case name a of
        None \<Rightarrow> Inl TypeError
      | Some n \<Rightarrow>
          let nameLower = toLowerCase n;
              nameMatch = list_ex (\<lambda>keyword. str_includes nameLower keyword) keywords;
              s0 = (if nameMatch then 5 else 0);
              s1 = (case bio a of
                      None \<Rightarrow> s0
                    | Some b \<Rightarrow> if b = [] then s0 else add_hits 2 keywords (toLowerCase b) s0);
              s2 = (case taxonomies a of
                      None \<Rightarrow> s1
                    | Some tx \<Rightarrow>
                        fold (\<lambda>(category, vals) s.
                                fold (\<lambda>v s. add_hits 3 keywords (toLowerCase v) s) vals s) tx s1);
              s3 = (case papers a of
                      None \<Rightarrow> s2
                    | Some ps \<Rightarrow> fold (\<lambda>paper s. add_hits 1 keywords (toLowerCase (title paper)) s) ps s2);
              s4 = (case events a of
                      None \<Rightarrow> s3
                    | Some es \<Rightarrow> fold (\<lambda>event s. add_hits 1 keywords (toLowerCase (title event)) s) es s3)
          in Inr s4)"

text \<open>
  Lines 179 to 236: the loop over the corpus. The first academic whose score raises
  aborts the loop; the others are pushed, in order, when their score is positive.
\<close>

fun score_all :: "string list \<Rightarrow> academic list \<Rightarrow> error + scored list" where
  "score_all keywords [] = Inr []"
| "score_all keywords (a # as) =
     (case score_academic keywords a of
        Inl e \<Rightarrow> Inl e
      | Inr s \<Rightarrow>
          (case score_all keywords as of
             Inl e \<Rightarrow> Inl e
           | Inr ms \<Rightarrow> Inr (if s > 0 then \<lparr>academic_of = a, score = s\<rparr> # ms else ms)))"

text \<open>
  Line 239: \<open>matches.sort((a, b) => b.score - a.score)\<close>. \<open>Array.prototype.sort\<close> is
  stable, so the result is the stable sort by descending score.
\<close>

definition sort_matches :: "scored list \<Rightarrow> scored list" where
  "sort_matches ms = sort_key (\<lambda>m. - int (score m)) ms"

text \<open>
  Lines 250 to 252: \<open>x.connections?.includes(y.name)\<close>, read as a truth value
  (a missing list gives \<open>undefined\<close>, which is falsy).
\<close>

definition lists_name :: "academic \<Rightarrow> academic \<Rightarrow> bool" where
  "lists_name x y =
     (case connections x of
        None \<Rightarrow> False
      | Some cs \<Rightarrow> (case name y of None \<Rightarrow> False | Some n \<Rightarrow> n \<in> set cs))"

definition directly_connected :: "academic \<Rightarrow> academic \<Rightarrow> bool" where
  "directly_connected a b = (lists_name a b \<or> lists_name b a)"

text \<open>
  Lines 255 to 272: the shared taxonomies of a pair, one entry for each category of
  \<open>a\<close> that \<open>b\<close> has too and in which some value of \<open>a\<close> is a value of \<open>b\<close>.
  Category names that are members of \<open>Object.prototype\<close> are not modelled.
\<close>

definition shared_in :: "(string \<times> string list) list \<Rightarrow> string \<times> string list \<Rightarrow> sharedTaxonomy list" where
  "shared_in tb entry =
     (case entry of (cat, valuesA) \<Rightarrow>
        (case map_of tb cat of
           None \<Rightarrow> []
         | Some valuesB \<Rightarrow>
             let shared = filter (\<lambda>v. v \<in> set valuesB) valuesA
             in if length shared > 0 then [\<lparr>category = cat, shared_values = shared\<rparr>] else []))"

definition shared_taxonomies :: "academic \<Rightarrow> academic \<Rightarrow> sharedTaxonomy list" where
  "shared_taxonomies a b =
     (case taxonomies a of
        None \<Rightarrow> []
      | Some ta \<Rightarrow> (case taxonomies b of None \<Rightarrow> [] | Some tb \<Rightarrow> concat (map (shared_in tb) ta)))"

text \<open>Lines 246 to 282: the body of the inner loop; the list holds what it pushes.\<close>

definition connect_pair :: "academic \<Rightarrow> academic \<Rightarrow> connection list" where
  "connect_pair a b =
     (let direct = directly_connected a b;
          shared = shared_taxonomies a b
      in if direct \<or> length shared > 0
         then [\<lparr>academicA = name a, academicB = name b, isDirectlyConnected = direct,
                sharedTaxonomies = shared,
                strength = (if direct then 5 else 0) + length shared * 2\<rparr>]
         else [])"

text \<open>Lines 244 to 284: the two nested loops over the first five matches.\<close>

definition generate_connections :: "scored list \<Rightarrow> connection list" where
  "generate_connections ms =
     (let n = min (length ms) 5
      in concat (map (\<lambda>i. concat (map (\<lambda>j. connect_pair (academic_of (ms ! i)) (academic_of (ms ! j)))
                                       [i + 1..<n]))
                     [0..<n]))"

definition sort_connections :: "connection list \<Rightarrow> connection list" where
  "sort_connections cs = sort_key (\<lambda>c. - int (strength c)) cs"

definition max_score :: "scored list \<Rightarrow> nat" where
  "max_score ms = fold max (map score ms) 0"

definition top_name :: "scored list \<Rightarrow> string" where
  "top_name ms =
     (case ms of
        [] \<Rightarrow> ''none''
      | m # _ \<Rightarrow> (case name (academic_of m) of
                    None \<Rightarrow> ''none''
                  | Some n \<Rightarrow> if n = [] then ''none'' else n))"

definition analysis_text :: "nat \<Rightarrow> nat \<Rightarrow> string \<Rightarrow> string \<Rightarrow> string" where
  "analysis_text found conns query best =
     ''Found '' @ string_of_nat found @ '' academics and '' @ string_of_nat conns
       @ '' connections related to '' @ [CHR 0x22] @ query @ [CHR 0x22] @ ''.'' @ [CHR 0x0A]
       @ ''The most relevant academic is '' @ best @ ''.''"

definition result_match_of :: "nat \<Rightarrow> scored \<Rightarrow> result_match" where
  "result_match_of best m =
     \<lparr>match_name = name (academic_of m), match_score = score m,
      match_relevance = PercentOf (score m) best\<rparr>"

text \<open>
  \<open>demoSearch\<close>, lines 155 to 303. \<open>now\<close> is the reading of the clock
  (\<open>new Date().toISOString()\<close>) and \<open>academics\<close> what
  \<open>databaseManager.getAllAcademics()\<close> returns (the empty list without a database
  manager). A TypeError in the scoring loop leaves the promise pending.
\<close>

definition demoSearch :: "string \<Rightarrow> academic list \<Rightarrow> string \<Rightarrow> results promise" where
  "demoSearch now academics query =
     (case score_all (keywords_of query) academics of
        Inl e \<Rightarrow> NeverSettles
      | Inr pushed \<Rightarrow>
          let matches = sort_matches pushed;
              conns = generate_connections matches
          in Resolved
               \<lparr>res_query = query,
                res_timestamp = now,
                res_matches = Some (map (result_match_of (max_score matches)) (take 10 matches)),
                res_connections = Some (sort_connections conns),
                res_analysis = analysis_text (length matches) (length conns) query (top_name matches)\<rparr>)"

section \<open>executeSearch\<close>

text \<open>
  The fields of a \<open>DeepSearchAPI\<close> object. The cache is an object used as a dictionary;
  its keys all contain an underscore, so none is an array index and \<open>Object.keys\<close>
  lists them in insertion order: the cache is an association list in that order.
\<close>

record api_state =
  apiKey :: string
  isInitialized :: bool
  searchInProgress :: bool
  searchDepth :: string
  searchCache :: "(string \<times> results) list"

text \<open>The constructor, with the key found in local storage, if any.\<close>

definition new_api :: "string option \<Rightarrow> api_state" where
  "new_api savedKey =
     (let fresh = \<lparr>apiKey = [], isInitialized = False, searchInProgress = False,
                   searchDepth = ''medium'', searchCache = []\<rparr>
      in case savedKey of
           None \<Rightarrow> fresh
         | Some k \<Rightarrow> if k = [] then fresh else fresh\<lparr>apiKey := k, isInitialized := True\<rparr>)"




definition isSearching :: "api_state \<Rightarrow> bool" where
  "isSearching st = searchInProgress st"

text \<open>
  What a call of \<open>executeSearch\<close> finds outside the object: the clock, the academics
  of the database manager, and the outcome of the request to the remote service (an
  error for a failed request or a response that is not ok, else the parsed body, taken
  to be an object).
\<close>

record environment =
  clock :: string
  database :: "academic list"
  api_reply :: "error + results"

record options =
  depth :: "string option"

text \<open>Line 319: \<open>options.depth || this.searchDepth\<close>.\<close>

definition effective_depth :: "options \<Rightarrow> api_state \<Rightarrow> string" where
  "effective_depth opts st =
     (case depth opts of None \<Rightarrow> searchDepth st | Some x \<Rightarrow> if x = [] then searchDepth st else x)"

definition cache_key :: "string \<Rightarrow> string \<Rightarrow> string" where
  "cache_key query d = query @ ''_'' @ d"

text \<open>Lines 364 to 370: store the results, then drop the first key when there are more than 20.\<close>

definition store_results :: "string \<Rightarrow> results \<Rightarrow> (string \<times> results) list \<Rightarrow> (string \<times> results) list" where
  "store_results cacheKey r cache =
     (let cache1 = AList.update cacheKey r cache;
          cacheKeys = map fst cache1
      in if length cacheKeys > 20 then AList.delete (hd cacheKeys) cache1 else cache1)"

text \<open>
  \<open>executeSearch\<close>, lines 311 to 380, as one atomic step: the outcome of the returned
  promise and the object afterwards. When the awaited demo search never settles, neither
  does the call, and the \<open>finally\<close> block is never reached.
\<close>

definition executeSearch :: "string \<Rightarrow> options \<Rightarrow> environment \<Rightarrow> api_state \<Rightarrow> results promise \<times> api_state" where
  "executeSearch query0 opts env st =
     (if query0 = [] \<or> trim query0 = [] then (Rejected EmptySearchQuery, st)
      else
        let query = trim query0;
            cacheKey = cache_key query (effective_depth opts st)
        in case map_of (searchCache st) cacheKey of
             Some cached \<Rightarrow> (Resolved cached, st)
           | None \<Rightarrow>
               let st1 = st\<lparr>searchInProgress := True\<rparr>;
                   outcome = (if isInitialized st1
                              then (case api_reply env of Inl e \<Rightarrow> Rejected e | Inr r \<Rightarrow> Resolved r)
                              else demoSearch (clock env) (database env) query)
               in case outcome of
                    Resolved r \<Rightarrow>
                      (Resolved r,
                       st1\<lparr>searchCache := store_results cacheKey r (searchCache st1),
                           searchInProgress := False\<rparr>)
                  | Rejected e \<Rightarrow> (Rejected e, st1\<lparr>searchInProgress := False\<rparr>)
                  | NeverSettles \<Rightarrow> (NeverSettles, st1))"

section \<open>convertToNetworkData\<close>

record node =
  node_id :: "string option"
  node_group :: string
  node_score :: nat

record link =
  source :: "string option"
  target :: "string option"
  link_value :: nat
  link_type :: string

record network =
  nodes :: "node list"
  links :: "link list"

text \<open>
  The \<open>Map\<close> of nodes is an association list in insertion order: \<open>set\<close> on a key that
  is present replaces the value in place, on a new key it appends.
\<close>

definition map_has :: "('k \<times> 'v) list \<Rightarrow> 'k \<Rightarrow> bool" where
  "map_has m k = (map_of m k \<noteq> None)"

definition match_node :: "result_match \<Rightarrow> node" where
  "match_node m =
     \<lparr>node_id = match_name m, node_group = ''match'',
      node_score = (if match_score m = 0 then 1 else match_score m)\<rparr>"

definition related_node :: "string option \<Rightarrow> node" where
  "related_node i = \<lparr>node_id = i, node_group = ''related'', node_score = 1\<rparr>"

definition add_related :: "string option \<Rightarrow> (string option \<times> node) list \<Rightarrow> (string option \<times> node) list" where
  "add_related i ns = (if map_has ns i then ns else AList.update i (related_node i) ns)"

definition link_of :: "connection \<Rightarrow> link" where
  "link_of c =
     \<lparr>source = academicA c, target = academicB c,
      link_value = (if strength c = 0 then 1 else strength c),
      link_type = (if isDirectlyConnected c then ''direct'' else ''indirect'')\<rparr>"

definition empty_network :: network where
  "empty_network = \<lparr>nodes = [], links = []\<rparr>"

text \<open>
  \<open>convertToNetworkData\<close>, lines 387 to 438. \<open>None\<close> is a missing (or otherwise falsy)
  argument or field.
\<close>

definition convertToNetworkData :: "results option \<Rightarrow> network" where
  "convertToNetworkData res =
     (case res of
        None \<Rightarrow> empty_network
      | Some r \<Rightarrow>
          (case res_connections r of
             None \<Rightarrow> empty_network
           | Some cs \<Rightarrow>
               let nodes0 = (case res_matches r of
                               None \<Rightarrow> []
                             | Some ms \<Rightarrow> fold (\<lambda>m ns. AList.update (match_name m) (match_node m) ns) ms []);
                   nodes1 = fold (\<lambda>c ns. add_related (academicB c) (add_related (academicA c) ns)) cs nodes0
               in \<lparr>nodes = map snd nodes1, links = map link_of cs\<rparr>))"

section \<open>Specification-side notions\<close>

text \<open>The score of an academic as a number (0 when scoring raises), and the list the
  scoring loop builds when it runs to its end.\<close>

definition score_of :: "string list \<Rightarrow> academic \<Rightarrow> nat" where
  "score_of keywords a = (case score_academic keywords a of Inl e \<Rightarrow> 0 | Inr s \<Rightarrow> s)"

definition pushed_matches :: "string list \<Rightarrow> academic list \<Rightarrow> scored list" where
  "pushed_matches keywords academics =
     map (\<lambda>a. \<lparr>academic_of = a, score = score_of keywords a\<rparr>)
         (filter (\<lambda>a. score_of keywords a > 0) academics)"

text \<open>
  The scoring rule in the specification's words. \<open>token_hits\<close> counts the tokens that
  are substrings of the lower-cased text; the matching pairs of a token and a tag value
  (a work title, an occurrence title) are counted value by value.
\<close>

definition token_hits :: "string list \<Rightarrow> string \<Rightarrow> nat" where
  "token_hits tokens text = length (filter (\<lambda>t. sublist t (toLowerCase text)) tokens)"

definition name_bonus :: "string list \<Rightarrow> academic \<Rightarrow> nat" where
  "name_bonus tokens a =
     (case name a of
        None \<Rightarrow> 0
      | Some n \<Rightarrow> if (\<exists>t\<in>set tokens. sublist t (toLowerCase n)) then 5 else 0)"

definition description_hits :: "string list \<Rightarrow> academic \<Rightarrow> nat" where
  "description_hits tokens a = (case bio a of None \<Rightarrow> 0 | Some b \<Rightarrow> token_hits tokens b)"

definition tag_pairs :: "string list \<Rightarrow> academic \<Rightarrow> nat" where
  "tag_pairs tokens a =
     (case taxonomies a of
        None \<Rightarrow> 0
      | Some tx \<Rightarrow> sum_list (map (token_hits tokens) (concat (map snd tx))))"

definition work_pairs :: "string list \<Rightarrow> academic \<Rightarrow> nat" where
  "work_pairs tokens a =
     (case papers a of None \<Rightarrow> 0 | Some ps \<Rightarrow> sum_list (map (\<lambda>p. token_hits tokens (title p)) ps))"

definition occurrence_pairs :: "string list \<Rightarrow> academic \<Rightarrow> nat" where
  "occurrence_pairs tokens a =
     (case events a of None \<Rightarrow> 0 | Some es \<Rightarrow> sum_list (map (\<lambda>e. token_hits tokens (title e)) es))"

definition claimed_score :: "string list \<Rightarrow> academic \<Rightarrow> nat" where
  "claimed_score tokens a =
     name_bonus tokens a + 2 * description_hits tokens a + 3 * tag_pairs tokens a
       + work_pairs tokens a + occurrence_pairs tokens a"

text \<open>
  The categories in which two academics share a tag value: those present in both tag
  mappings whose value sets intersect.
\<close>

definition shared_categories :: "academic \<Rightarrow> academic \<Rightarrow> string set" where
  "shared_categories a b =
     (case taxonomies a of
        None \<Rightarrow> {}
      | Some ta \<Rightarrow>
          (case taxonomies b of
             None \<Rightarrow> {}
           | Some tb \<Rightarrow>
               {c \<in> fst ` set ta.
                  case map_of ta c of
                    None \<Rightarrow> False
                  | Some va \<Rightarrow> (case map_of tb c of None \<Rightarrow> False | Some vb \<Rightarrow> set va \<inter> set vb \<noteq> {})}))"

text \<open>
  The identifiers a result refers to: the names of its matches and the two ends of each
  connection. \<open>first_occurrences\<close> keeps each element of a list once, where it first
  occurs; \<open>add_key\<close> is what adding a key does to the key order of a \<open>Map\<close>.
\<close>

primrec first_occurrences :: "'k list \<Rightarrow> 'k list" where
  "first_occurrences [] = []"
| "first_occurrences (x # xs) = x # filter (\<lambda>y. y \<noteq> x) (first_occurrences xs)"

definition add_key :: "'k \<Rightarrow> 'k list \<Rightarrow> 'k list" where
  "add_key k ks = (if k \<in> set ks then ks else ks @ [k])"

definition match_names :: "results \<Rightarrow> string option list" where
  "match_names r = (case res_matches r of None \<Rightarrow> [] | Some ms \<Rightarrow> map match_name ms)"

definition endpoints :: "connection list \<Rightarrow> string option list" where
  "endpoints cs = concat (map (\<lambda>c. [academicA c, academicB c]) cs)"



text \<open>
  Example data: the two academics of the specification's scenario, a record without a
  name, and the surroundings of a call made without an API key.
\<close>

definition foucault :: academic where
  "foucault = \<lparr>name = Some ''michel-foucault'', bio = None,
                taxonomies = Some [(''theme'', [''Power''])], papers = None, events = None,
                connections = Some [''judith-butler'']\<rparr>"

definition butler :: academic where
  "butler = \<lparr>name = Some ''judith-butler'', bio = None,
              taxonomies = Some [(''theme'', [''Power'', ''Gender''])], papers = None,
              events = None, connections = Some []\<rparr>"

definition nameless :: academic where
  "nameless = \<lparr>name = None, bio = Some ''power and knowledge'', taxonomies = None,
                papers = None, events = None, connections = None\<rparr>"

definition blank_bio :: academic where
  "blank_bio = \<lparr>name = Some ''x'', bio = Some [], taxonomies = None, papers = None,
                 events = None, connections = None\<rparr>"

definition demo_env :: "academic list \<Rightarrow> environment" where
  "demo_env academics =
     \<lparr>clock = ''2024-05-01T10:00:00.000Z'', database = academics,
      api_reply = Inl (ApiError ''unreachable'')\<rparr>"

definition no_options :: options where
  "no_options = \<lparr>depth = None\<rparr>"



definition sample_connection :: connection where
  "sample_connection =
     \<lparr>academicA = Some ''michel-foucault'', academicB = Some ''judith-butler'',
      isDirectlyConnected = True,
      sharedTaxonomies = [\<lparr>category = ''theme'', shared_values = [''Power'']\<rparr>],
      strength = 7\<rparr>"

definition sample_results :: results where
  "sample_results =
     \<lparr>res_query = ''power'', res_timestamp = ''2024-05-01T10:00:00.000Z'',
      res_matches = Some [\<lparr>match_name = Some ''michel-foucault'', match_score = 3,
                           match_relevance = PercentOf 3 3\<rparr>],
      res_connections = Some [sample_connection],
      res_analysis = []\<rparr>"

section \<open>Scoring and the search as a whole\<close>

lemma score_academic_named:
  "name a \<noteq> None \<Longrightarrow> score_academic kws a = Inr (score_of kws a)"
  by (auto simp: score_of_def score_academic_def Let_def)

lemma score_all_named:
  "(\<forall>a\<in>set academics. name a \<noteq> None) \<Longrightarrow>
     score_all kws academics = Inr (pushed_matches kws academics)"
  by (induction academics) (auto simp: pushed_matches_def score_academic_named)

lemma score_academic_nameless:
  "name a = None \<Longrightarrow> score_academic kws a = Inl TypeError"
  by (simp add: score_academic_def)

lemma score_all_nameless:
  "\<exists>a\<in>set academics. name a = None \<Longrightarrow> score_all kws academics = Inl TypeError"
proof (induction academics)
  case Nil
  then show ?case by simp
next
  case (Cons a as)
  show ?case
  proof (cases "name a")
    case None
    then show ?thesis by (simp add: score_academic_nameless)
  next
    case (Some n)
    with Cons show ?thesis
      by (auto simp: score_academic_named split: sum.splits)
  qed
qed

lemma demoSearch_nameless:
  "\<exists>a\<in>set academics. name a = None \<Longrightarrow> demoSearch now academics query = NeverSettles"
  by (simp add: demoSearch_def score_all_nameless)

lemma str_includes_sublist: "str_includes s k = sublist k s"
  by (induction s) (auto simp: sublist_Cons_right)

lemma add_hits_count:
  "add_hits w kws text s = s + w * length (filter (\<lambda>k. sublist k text) kws)"
  unfolding add_hits_def
  by (induction kws arbitrary: s) (auto simp: str_includes_sublist)

lemma fold_add_hits:
  "fold (\<lambda>x s. add_hits w kws (toLowerCase (g x)) s) xs s
     = s + w * sum_list (map (\<lambda>x. token_hits kws (g x)) xs)"
  by (induction xs arbitrary: s) (auto simp: add_hits_count token_hits_def algebra_simps)

lemma fold_taxonomies:
  "fold (\<lambda>(category, vals) s. fold (\<lambda>v s. add_hits 3 kws (toLowerCase v) s) vals s) tx s
     = s + 3 * sum_list (map (token_hits kws) (concat (map snd tx)))"
proof (induction tx arbitrary: s)
  case Nil
  then show ?case by simp
next
  case (Cons e tx)
  obtain c vals where e: "e = (c, vals)" by (cases e)
  have "fold (\<lambda>v s. add_hits 3 kws (toLowerCase v) s) vals s
          = s + 3 * sum_list (map (token_hits kws) vals)"
    using fold_add_hits[of 3 kws "\<lambda>v. v" vals s] by simp
  then show ?case using Cons.IH by (simp add: e algebra_simps)
qed

lemma list_ex_sublist:
  "list_ex (\<lambda>keyword. str_includes text keyword) kws = (\<exists>t\<in>set kws. sublist t text)"
  by (simp add: list_ex_iff str_includes_sublist)

lemma score_academic_formula:
  assumes "name a = Some n"
  shows "score_academic kws a =
           Inr (name_bonus kws a
                + 2 * (if bio a = Some [] then 0 else description_hits kws a)
                + 3 * tag_pairs kws a + work_pairs kws a + occurrence_pairs kws a)"
  using assms
  by (simp add: score_academic_def Let_def name_bonus_def description_hits_def tag_pairs_def
        work_pairs_def occurrence_pairs_def list_ex_sublist add_hits_count token_hits_def[symmetric]
        fold_taxonomies fold_add_hits split: option.splits)









lemma split_from_concat:
  "concat (split_from inRun cur s) = rev cur @ filter (\<lambda>c. \<not> isWhiteSpace c) s"
proof (induction s arbitrary: inRun cur)
  case Nil
  then show ?case by simp
next
  case (Cons c cs)
  then show ?case by simp
qed

lemma split_from_pieces:
  "(\<forall>c\<in>set cur. \<not> isWhiteSpace c) \<Longrightarrow>
     (\<forall>w\<in>set (split_from inRun cur s). \<forall>c\<in>set w. \<not> isWhiteSpace c)"
proof (induction s arbitrary: inRun cur)
  case Nil
  then show ?case by simp
next
  case (Cons c cs)
  show ?case
  proof (cases "isWhiteSpace c")
    case True
    have a: "\<forall>w\<in>set (split_from True cur cs). \<forall>c\<in>set w. \<not> isWhiteSpace c"
      by (rule Cons.IH) (rule Cons.prems)
    have b: "\<forall>w\<in>set (split_from True [] cs). \<forall>c\<in>set w. \<not> isWhiteSpace c"
      by (rule Cons.IH) simp
    from True a b Cons.prems show ?thesis by (cases inRun) simp_all
  next
    case False
    have "\<forall>w\<in>set (split_from False (c # cur) cs). \<forall>c\<in>set w. \<not> isWhiteSpace c"
      by (rule Cons.IH) (use False Cons.prems in simp)
    with False show ?thesis by simp
  qed
qed

lemma split_ws_concat: "concat (split_ws s) = filter (\<lambda>c. \<not> isWhiteSpace c) s"
  by (simp add: split_ws_def split_from_concat)

lemma split_ws_pieces: "\<forall>w\<in>set (split_ws s). \<forall>c\<in>set w. \<not> isWhiteSpace c"
  using split_from_pieces[of "[]" False s] by (simp add: split_ws_def)




text \<open>
  C2, as the code has it. The claim reads: two calls with identical arguments give
  identical output in every field. The output carries the time of the call; what holds
  is that the outcome at one clock reading is the outcome at another with the timestamp
  replaced, so that all other fields depend on the query and the corpus only.
\<close>

theorem demoSearch_clock_only:
  "demoSearch t2 academics query =
     (case demoSearch t1 academics query of
        Resolved r \<Rightarrow> Resolved (r\<lparr>res_timestamp := t2\<rparr>)
      | Rejected e \<Rightarrow> Rejected e
      | NeverSettles \<Rightarrow> NeverSettles)"
  by (simp add: demoSearch_def Let_def split: sum.splits)

text \<open>The claim of C2 as stated fails: the same query over the same corpus, five seconds
  apart.\<close>

theorem demoSearch_timestamp_counterexample:
  "demoSearch ''2024-05-01T10:00:00.000Z'' [] ''power''
     \<noteq> demoSearch ''2024-05-01T10:00:05.000Z'' [] ''power''"
  by code_simp




text \<open>
  C3, as the code has it. For an academic with a name, the score is 5 if some token is
  a substring of the lower-cased name, plus 2 for each token that is a substring of the
  lower-cased description when the description is not empty, plus 3 for each pair of a
  token and a tag value whose lower-cased text contains it, plus 1 for each such pair
  with a paper title and with an event title. The tokens are the pieces of the
  lower-cased query between runs of white space that are longer than 3 characters,
  with their non-word characters removed.
\<close>

theorem score_academic_rule:
  assumes "name a = Some n"
  shows "score_academic (keywords_of query) a =
           (let tokens = map (filter isWordChar)
                           (filter (\<lambda>w. 3 < length w) (split_ws (toLowerCase query)))
            in Inr ((if \<exists>t\<in>set tokens. sublist t (toLowerCase n) then 5 else 0)
                    + 2 * (if bio a = Some [] then 0 else description_hits tokens a)
                    + 3 * tag_pairs tokens a + work_pairs tokens a + occurrence_pairs tokens a))"
  using score_academic_formula[OF assms, of "keywords_of query"] assms
  by (simp add: keywords_of_def Let_def name_bonus_def)

theorem score_academic_rule_witness:
  "name foucault = Some ''michel-foucault'' \<and>
   score_academic (keywords_of ''power'') foucault = Inr 3"
proof -
  have n: "name foucault = Some ''michel-foucault''" by (simp add: foucault_def)
  have v: "(let tokens = map (filter isWordChar)
                           (filter (\<lambda>w. 3 < length w) (split_ws (toLowerCase ''power'')))
            in Inr ((if \<exists>t\<in>set tokens. sublist t (toLowerCase ''michel-foucault'') then 5 else 0)
                    + 2 * (if bio foucault = Some [] then 0 else description_hits tokens foucault)
                    + 3 * tag_pairs tokens foucault + work_pairs tokens foucault
                    + occurrence_pairs tokens foucault)) = (Inr 3 :: error + nat)"
    by code_simp
  from score_academic_rule[OF n, of "''power''"] v n show ?thesis by simp
qed

text \<open>The claim of C3 as stated fails: for the query \<open>----\<close> the only token is the
  empty one, which is a substring of the empty description; the rule as claimed gives
  5 + 2, the code 5.\<close>

theorem score_academic_counterexample:
  "score_academic (keywords_of ''----'') blank_bio = Inr 5 \<and>
   claimed_score (keywords_of ''----'') blank_bio = 7"
  by code_simp

section \<open>Ranking and connections\<close>

lemma score_all_positive:
  "score_all kws academics = Inr pushed \<Longrightarrow> \<forall>m\<in>set pushed. 0 < score m"
  by (induction academics arbitrary: pushed) (auto split: sum.splits if_splits)

lemma score_all_subset:
  "score_all kws academics = Inr pushed \<Longrightarrow> \<forall>m\<in>set pushed. academic_of m \<in> set academics"
  by (induction academics arbitrary: pushed) (auto split: sum.splits if_splits)

lemma sort_matches_set: "set (sort_matches ms) = set ms"
  by (simp add: sort_matches_def)

lemma sort_matches_length: "length (sort_matches ms) = length ms"
  by (simp add: sort_matches_def)

lemma sort_matches_sorted:
  "sorted_wrt (\<lambda>a b. score b \<le> score a) (sort_matches ms)"
proof -
  have "sorted (map (\<lambda>m. - int (score m)) (sort_matches ms))"
    unfolding sort_matches_def by (rule sorted_sort_key)
  then show ?thesis by (simp add: sorted_map)
qed

lemma sort_matches_stable:
  "filter (\<lambda>m. score m = k) (sort_matches ms) = filter (\<lambda>m. score m = k) ms"
  using sort_key_stable[of "\<lambda>m. - int (score m)" "- int k" ms]
  by (simp add: sort_matches_def)

lemma connect_pair_length: "length (connect_pair a b) \<le> 1"
  by (simp add: connect_pair_def Let_def)

lemma concat_short: "(\<And>x. length (f x) \<le> 1) \<Longrightarrow> length (concat (map f xs)) \<le> length xs"
proof (induction xs)
  case Nil
  then show ?case by simp
next
  case (Cons x xs)
  have "length (f x) \<le> 1" by (rule Cons.prems)
  moreover have "length (concat (map f xs)) \<le> length xs" using Cons by blast
  ultimately show ?case by simp
qed

lemma triangle_bound: "n \<le> 5 \<Longrightarrow> sum_list (map (\<lambda>i. n - Suc i) [0..<n]) \<le> 10"
proof -
  assume "n \<le> 5"
  then have "n = 0 \<or> n = 1 \<or> n = 2 \<or> n = 3 \<or> n = 4 \<or> n = 5" by arith
  then show ?thesis by (elim disjE) (simp_all add: eval_nat_numeral)
qed

lemma generate_connections_length: "length (generate_connections ms) \<le> 10"
proof -
  define n where "n = min (length ms) 5"
  define row where "row = (\<lambda>i. concat (map (\<lambda>j. connect_pair (academic_of (ms ! i)) (academic_of (ms ! j))) [i + 1..<n]))"
  have row_len: "length (row i) \<le> n - Suc i" for i
  proof -
    have "length (concat (map (\<lambda>j. connect_pair (academic_of (ms ! i)) (academic_of (ms ! j))) [i + 1..<n]))
            \<le> length [i + 1..<n]"
      by (rule concat_short) (rule connect_pair_length)
    then show ?thesis by (simp add: row_def)
  qed
  have "length (concat (map row [0..<n])) = sum_list (map (\<lambda>i. length (row i)) [0..<n])"
    by (simp add: length_concat comp_def)
  also have "\<dots> \<le> sum_list (map (\<lambda>i. n - Suc i) [0..<n])"
    by (rule sum_list_mono) (simp add: row_len)
  also have "\<dots> \<le> 10" by (rule triangle_bound) (simp add: n_def)
  finally show ?thesis by (simp add: generate_connections_def Let_def n_def row_def)
qed

lemma generate_connections_set:
  "set (generate_connections ms) =
     {c. \<exists>i j. i < j \<and> j < min (length ms) 5 \<and>
              c \<in> set (connect_pair (academic_of (ms ! i)) (academic_of (ms ! j)))}"
proof -
  have "(\<exists>i\<in>{0..<n}. \<exists>j\<in>{Suc i..<n}. P i j) = (\<exists>i j. i < j \<and> j < n \<and> P i j)"
    for n :: nat and P
  proof
    assume "\<exists>i\<in>{0..<n}. \<exists>j\<in>{Suc i..<n}. P i j"
    then obtain i j where "i < n" "Suc i \<le> j" "j < n" "P i j" by auto
    then show "\<exists>i j. i < j \<and> j < n \<and> P i j" by (intro exI[of _ i] exI[of _ j]) simp
  next
    assume "\<exists>i j. i < j \<and> j < n \<and> P i j"
    then obtain i j where ij: "i < j" "j < n" "P i j" by blast
    then have "i \<in> {0..<n}" "j \<in> {Suc i..<n}" by auto
    with ij(3) show "\<exists>i\<in>{0..<n}. \<exists>j\<in>{Suc i..<n}. P i j" by blast
  qed
  then show ?thesis by (simp add: generate_connections_def Let_def set_eq_iff)
qed

lemma sort_connections_set: "set (sort_connections cs) = set cs"
  by (simp add: sort_connections_def)

lemma sort_connections_length: "length (sort_connections cs) = length cs"
  by (simp add: sort_connections_def)

lemma demoSearch_Resolved:
  assumes "demoSearch now academics query = Resolved r"
  obtains pushed where "score_all (keywords_of query) academics = Inr pushed"
    and "r = \<lparr>res_query = query, res_timestamp = now,
              res_matches = Some (map (result_match_of (max_score (sort_matches pushed)))
                                   (take 10 (sort_matches pushed))),
              res_connections = Some (sort_connections (generate_connections (sort_matches pushed))),
              res_analysis = analysis_text (length (sort_matches pushed))
                               (length (generate_connections (sort_matches pushed))) query
                               (top_name (sort_matches pushed))\<rparr>"
  using assms by (auto simp: demoSearch_def Let_def split: sum.splits)

lemma demoSearch_resolves:
  "\<forall>a\<in>set academics. name a \<noteq> None \<Longrightarrow> \<exists>r. demoSearch now academics query = Resolved r"
  by (simp add: demoSearch_def Let_def score_all_named)

text \<open>
  C5. Whenever the search returns, its matches are the first ten of the stable sort by
  descending score of the records with a positive score, taken in corpus order: every
  match has a positive score, the scores never increase along the list, records of
  equal score keep their order of encounter, and there are at most ten matches and at
  most ten connections.
\<close>

theorem demoSearch_ranking:
  assumes "demoSearch now academics query = Resolved r"
  shows "\<exists>pushed ms cs.
           score_all (keywords_of query) academics = Inr pushed \<and>
           res_matches r = Some ms \<and> res_connections r = Some cs \<and>
           ms = map (result_match_of (max_score (sort_matches pushed))) (take 10 (sort_matches pushed)) \<and>
           (\<forall>k. filter (\<lambda>m. score m = k) (sort_matches pushed) = filter (\<lambda>m. score m = k) pushed) \<and>
           (\<forall>m\<in>set ms. 0 < match_score m) \<and>
           sorted_wrt (\<lambda>a b. match_score b \<le> match_score a) ms \<and>
           length ms \<le> 10 \<and> length cs \<le> 10"
proof -
  from assms obtain pushed where sc: "score_all (keywords_of query) academics = Inr pushed"
    and r: "r = \<lparr>res_query = query, res_timestamp = now,
              res_matches = Some (map (result_match_of (max_score (sort_matches pushed)))
                                   (take 10 (sort_matches pushed))),
              res_connections = Some (sort_connections (generate_connections (sort_matches pushed))),
              res_analysis = analysis_text (length (sort_matches pushed))
                               (length (generate_connections (sort_matches pushed))) query
                               (top_name (sort_matches pushed))\<rparr>"
    by (rule demoSearch_Resolved)
  let ?ranked = "sort_matches pushed"
  let ?ms = "map (result_match_of (max_score ?ranked)) (take 10 ?ranked)"
  have pos: "\<forall>m\<in>set ?ms. 0 < match_score m"
  proof
    fix m assume "m \<in> set ?ms"
    then obtain s where s: "s \<in> set (take 10 ?ranked)" and m: "m = result_match_of (max_score ?ranked) s"
      by auto
    from s have "s \<in> set pushed" using set_take_subset[of 10 ?ranked] by (auto simp: sort_matches_set)
    with score_all_positive[OF sc] have "0 < score s" by blast
    then show "0 < match_score m" by (simp add: m result_match_of_def)
  qed
  have "sorted_wrt (\<lambda>a b. score b \<le> score a) (take 10 ?ranked)"
    by (rule sorted_wrt_take) (rule sort_matches_sorted)
  then have srt: "sorted_wrt (\<lambda>a b. match_score b \<le> match_score a) ?ms"
    by (simp add: sorted_wrt_map result_match_of_def)
  have len: "length ?ms \<le> 10" by simp
  have clen: "length (sort_connections (generate_connections ?ranked)) \<le> 10"
    by (simp add: sort_connections_length generate_connections_length)
  show ?thesis
    using sc pos srt len clen sort_matches_stable by (simp add: r)
qed


theorem demoSearch_ranking_witness:
  "\<exists>r. demoSearch ''2024-05-01T10:00:00.000Z'' [foucault, butler] ''power'' = Resolved r \<and>
       (\<exists>pushed ms cs.
           score_all (keywords_of ''power'') [foucault, butler] = Inr pushed \<and>
           res_matches r = Some ms \<and> res_connections r = Some cs \<and>
           ms = map (result_match_of (max_score (sort_matches pushed))) (take 10 (sort_matches pushed)) \<and>
           (\<forall>k. filter (\<lambda>m. score m = k) (sort_matches pushed) = filter (\<lambda>m. score m = k) pushed) \<and>
           (\<forall>m\<in>set ms. 0 < match_score m) \<and>
           sorted_wrt (\<lambda>a b. match_score b \<le> match_score a) ms \<and>
           length ms \<le> 10 \<and> length cs \<le> 10)"
proof -
  have "\<forall>a\<in>set [foucault, butler]. name a \<noteq> None" by (simp add: foucault_def butler_def)
  then obtain r where r: "demoSearch ''2024-05-01T10:00:00.000Z'' [foucault, butler] ''power'' = Resolved r"
    using demoSearch_resolves by blast
  from demoSearch_ranking[OF r] r show ?thesis by blast
qed

lemma directly_connected_iff:
  "directly_connected a b =
     ((\<exists>cs n. connections a = Some cs \<and> name b = Some n \<and> n \<in> set cs) \<or>
      (\<exists>cs n. connections b = Some cs \<and> name a = Some n \<and> n \<in> set cs))"
  by (auto simp: directly_connected_def lists_name_def split: option.splits)

lemma shared_in_length: "length (shared_in tb e) \<le> 1"
  by (cases e) (simp add: shared_in_def Let_def split: option.splits)

lemma shared_in_nonempty:
  "(shared_in tb (c, va) \<noteq> []) = (\<exists>vb. map_of tb c = Some vb \<and> set va \<inter> set vb \<noteq> {})"
proof -
  have "(filter (\<lambda>v. v \<in> set vb) va \<noteq> []) = (set va \<inter> set vb \<noteq> {})" for vb
    by (auto simp: filter_empty_conv)
  then show ?thesis
    by (simp add: shared_in_def Let_def split: option.splits)
qed

lemma concat_count:
  "(\<And>x. length (f x) \<le> 1) \<Longrightarrow> length (concat (map f xs)) = length (filter (\<lambda>x. f x \<noteq> []) xs)"
proof (induction xs)
  case Nil
  then show ?case by simp
next
  case (Cons x xs)
  have "length (f x) \<le> 1" by (rule Cons.prems)
  then have "length (f x) = (if f x = [] then 0 else 1)" by (cases "f x") auto
  moreover have "length (concat (map f xs)) = length (filter (\<lambda>x. f x \<noteq> []) xs)"
    using Cons by blast
  ultimately show ?case by simp
qed

lemma shared_categories_card:
  assumes "wf_academic a"
  shows "length (shared_taxonomies a b) = card (shared_categories a b)"
proof (cases "taxonomies a")
  case None
  then show ?thesis by (simp add: shared_taxonomies_def shared_categories_def)
next
  case (Some ta)
  note ta = this
  show ?thesis
  proof (cases "taxonomies b")
    case None
    then show ?thesis by (simp add: shared_taxonomies_def shared_categories_def ta)
  next
    case (Some tb)
    from assms ta have dist: "distinct (map fst ta)" by (simp add: wf_academic_def)
    let ?Q = "\<lambda>e. shared_in tb e \<noteq> []"
    have len: "length (shared_taxonomies a b) = length (filter ?Q ta)"
      using concat_count[of "shared_in tb" ta] shared_in_length
      by (simp add: shared_taxonomies_def ta Some)
    have cats: "shared_categories a b = set (map fst (filter ?Q ta))"
    proof (rule set_eqI)
      fix c
      show "(c \<in> shared_categories a b) = (c \<in> set (map fst (filter ?Q ta)))"
      proof
        assume "c \<in> shared_categories a b"
        then obtain va vb where "map_of ta c = Some va" "map_of tb c = Some vb"
            "set va \<inter> set vb \<noteq> {}"
          by (auto simp: shared_categories_def ta Some split: option.splits)
        then have "(c, va) \<in> set ta" "?Q (c, va)"
          by (auto simp: shared_in_nonempty dest: map_of_SomeD)
        then show "c \<in> set (map fst (filter ?Q ta))" by force
      next
        assume "c \<in> set (map fst (filter ?Q ta))"
        then obtain va where in_ta: "(c, va) \<in> set ta" and q: "?Q (c, va)" by auto
        from in_ta dist have "map_of ta c = Some va" by simp
        moreover from q obtain vb where "map_of tb c = Some vb" "set va \<inter> set vb \<noteq> {}"
          by (auto simp: shared_in_nonempty)
        moreover from in_ta have "c \<in> fst ` set ta" by force
        ultimately show "c \<in> shared_categories a b"
          by (simp add: shared_categories_def ta Some)
      qed
    qed
    have "distinct (map fst (filter ?Q ta))" using dist by (rule distinct_map_filter)
    then have "card (set (map fst (filter ?Q ta))) = length (filter ?Q ta)"
      using distinct_card[of "map fst (filter ?Q ta)"] by simp
    with len cats show ?thesis by simp
  qed
qed

lemma shared_categories_finite: "finite (shared_categories a b)"
  by (simp add: shared_categories_def split: option.splits)

lemma connect_pair_rule:
  assumes "wf_academic a"
  shows "connect_pair a b =
           (if directly_connected a b \<or> shared_categories a b \<noteq> {}
            then [\<lparr>academicA = name a, academicB = name b,
                   isDirectlyConnected = directly_connected a b,
                   sharedTaxonomies = shared_taxonomies a b,
                   strength = (if directly_connected a b then 5 else 0)
                              + 2 * card (shared_categories a b)\<rparr>]
            else [])"
proof -
  have len: "length (shared_taxonomies a b) = card (shared_categories a b)"
    by (rule shared_categories_card[OF assms])
  have "(length (shared_taxonomies a b) = 0) = (shared_categories a b = {})"
    using shared_categories_finite[of a b] by (simp add: len)
  then have ne: "(shared_taxonomies a b = []) = (shared_categories a b = {})"
    by simp
  show ?thesis
    by (simp add: connect_pair_def Let_def ne len)
qed

text \<open>
  C4. Whenever the search returns, its connections are exactly what the pairs \<open>i < j\<close>
  among the first five ranked academics produce, and a pair produces a connection if
  and only if one of the two lists the other's name among its connections or they share
  a tag value in some category; the strength is 5 for a direct connection plus 2 for
  each category with a shared value.
\<close>

theorem demoSearch_relations:
  assumes "demoSearch now academics query = Resolved r"
    and "\<forall>a\<in>set academics. wf_academic a"
  shows "\<exists>pushed cs.
           score_all (keywords_of query) academics = Inr pushed \<and> res_connections r = Some cs \<and>
           (let ranked = map academic_of (sort_matches pushed); n = min (length ranked) 5
            in set cs = {c. \<exists>i j. i < j \<and> j < n \<and> c \<in> set (connect_pair (ranked ! i) (ranked ! j))} \<and>
               (\<forall>i j. i < j \<and> j < n \<longrightarrow>
                  (let a = ranked ! i; b = ranked ! j;
                       direct = ((\<exists>cs n. connections a = Some cs \<and> name b = Some n \<and> n \<in> set cs) \<or>
                                 (\<exists>cs n. connections b = Some cs \<and> name a = Some n \<and> n \<in> set cs))
                   in connect_pair a b =
                        (if direct \<or> shared_categories a b \<noteq> {}
                         then [\<lparr>academicA = name a, academicB = name b,
                                isDirectlyConnected = direct,
                                sharedTaxonomies = shared_taxonomies a b,
                                strength = (if direct then 5 else 0)
                                           + 2 * card (shared_categories a b)\<rparr>]
                         else []))))"
proof -
  from assms(1) obtain pushed where sc: "score_all (keywords_of query) academics = Inr pushed"
    and r: "r = \<lparr>res_query = query, res_timestamp = now,
              res_matches = Some (map (result_match_of (max_score (sort_matches pushed)))
                                   (take 10 (sort_matches pushed))),
              res_connections = Some (sort_connections (generate_connections (sort_matches pushed))),
              res_analysis = analysis_text (length (sort_matches pushed))
                               (length (generate_connections (sort_matches pushed))) query
                               (top_name (sort_matches pushed))\<rparr>"
    by (rule demoSearch_Resolved)
  let ?sorted = "sort_matches pushed"
  let ?ranked = "map academic_of ?sorted"
  let ?n = "min (length ?ranked) 5"
  have nth: "?ranked ! i = academic_of (?sorted ! i)" if "i < ?n" for i
    using that by simp
  have wf: "wf_academic (?ranked ! i)" if "i < ?n" for i
  proof -
    from that have "?sorted ! i \<in> set ?sorted" by simp
    then have "?sorted ! i \<in> set pushed" by (simp add: sort_matches_set)
    with score_all_subset[OF sc] have "academic_of (?sorted ! i) \<in> set academics" by blast
    with assms(2) nth[OF that] show ?thesis by simp
  qed
  have set_eq: "set (sort_connections (generate_connections ?sorted)) =
          {c. \<exists>i j. i < j \<and> j < ?n \<and> c \<in> set (connect_pair (?ranked ! i) (?ranked ! j))}"
  proof -
    have "(\<exists>i j. i < j \<and> j < min (length ?sorted) 5 \<and>
                c \<in> set (connect_pair (academic_of (?sorted ! i)) (academic_of (?sorted ! j))))
          = (\<exists>i j. i < j \<and> j < ?n \<and> c \<in> set (connect_pair (?ranked ! i) (?ranked ! j)))" for c
      by (rule arg_cong[where f = Ex], rule ext, rule arg_cong[where f = Ex], rule ext) auto
    then show ?thesis
      by (simp add: sort_connections_set generate_connections_set)
  qed
  have rule: "connect_pair (?ranked ! i) (?ranked ! j) =
                (if directly_connected (?ranked ! i) (?ranked ! j) \<or> shared_categories (?ranked ! i) (?ranked ! j) \<noteq> {}
                 then [\<lparr>academicA = name (?ranked ! i), academicB = name (?ranked ! j),
                        isDirectlyConnected = directly_connected (?ranked ! i) (?ranked ! j),
                        sharedTaxonomies = shared_taxonomies (?ranked ! i) (?ranked ! j),
                        strength = (if directly_connected (?ranked ! i) (?ranked ! j) then 5 else 0)
                                   + 2 * card (shared_categories (?ranked ! i) (?ranked ! j))\<rparr>]
                 else [])"
    if "i < j" "j < ?n" for i j
  proof -
    from that have "i < ?n" by simp
    then show ?thesis by (intro connect_pair_rule wf)
  qed
  show ?thesis
    apply (rule exI[of _ pushed], rule exI[of _ "sort_connections (generate_connections ?sorted)"])
    apply (simp only: Let_def)
    apply (intro conjI allI impI)
       apply (rule sc)
      apply (simp add: r)
     apply (rule set_eq)
    apply (simp only: directly_connected_iff[symmetric])
    apply (rule rule)
     apply blast
    apply blast
    done
qed

theorem demoSearch_relations_witness:
  "wf_academic foucault \<and> wf_academic butler \<and>
   (\<exists>r. demoSearch ''2024-05-01T10:00:00.000Z'' [foucault, butler] ''power'' = Resolved r \<and>
     (\<exists>pushed cs.
           score_all (keywords_of ''power'') [foucault, butler] = Inr pushed \<and> res_connections r = Some cs \<and>
           (let ranked = map academic_of (sort_matches pushed); n = min (length ranked) 5
            in set cs = {c. \<exists>i j. i < j \<and> j < n \<and> c \<in> set (connect_pair (ranked ! i) (ranked ! j))} \<and>
               (\<forall>i j. i < j \<and> j < n \<longrightarrow>
                  (let a = ranked ! i; b = ranked ! j;
                       direct = ((\<exists>cs n. connections a = Some cs \<and> name b = Some n \<and> n \<in> set cs) \<or>
                                 (\<exists>cs n. connections b = Some cs \<and> name a = Some n \<and> n \<in> set cs))
                   in connect_pair a b =
                        (if direct \<or> shared_categories a b \<noteq> {}
                         then [\<lparr>academicA = name a, academicB = name b,
                                isDirectlyConnected = direct,
                                sharedTaxonomies = shared_taxonomies a b,
                                strength = (if direct then 5 else 0)
                                           + 2 * card (shared_categories a b)\<rparr>]
                         else []))))))"
proof -
  have wf: "wf_academic foucault \<and> wf_academic butler"
    by (simp add: wf_academic_def foucault_def butler_def)
  then have wfs: "\<forall>a\<in>set [foucault, butler]. wf_academic a" by simp
  have "\<forall>a\<in>set [foucault, butler]. name a \<noteq> None" by (simp add: foucault_def butler_def)
  then obtain r where r: "demoSearch ''2024-05-01T10:00:00.000Z'' [foucault, butler] ''power'' = Resolved r"
    using demoSearch_resolves by blast
  from demoSearch_relations[OF r wfs] r wf show ?thesis by blast
qed


text \<open>The scenario of the specification: both academics score 3 for the tag \<open>Power\<close>,
  and their connection is direct, shares the theme \<open>Power\<close> and has strength 7.\<close>

lemma scenario_power:
  "demoSearch ''2024-05-01T10:00:00.000Z'' [foucault, butler] ''power'' =
     Resolved \<lparr>res_query = ''power'', res_timestamp = ''2024-05-01T10:00:00.000Z'',
       res_matches = Some [\<lparr>match_name = Some ''michel-foucault'', match_score = 3,
                             match_relevance = PercentOf 3 3\<rparr>,
                           \<lparr>match_name = Some ''judith-butler'', match_score = 3,
                             match_relevance = PercentOf 3 3\<rparr>],
       res_connections = Some [sample_connection],
       res_analysis = analysis_text 2 1 ''power'' ''michel-foucault''\<rparr>"
  by code_simp

lemma connect_pair_strength: "\<forall>c\<in>set (connect_pair a b). 0 < strength c"
  by (auto simp: connect_pair_def Let_def)

lemma demoSearch_strength_positive:
  assumes "demoSearch now academics query = Resolved r"
  shows "\<exists>cs. res_connections r = Some cs \<and> (\<forall>c\<in>set cs. 0 < strength c)"
proof -
  from assms obtain pushed where
    r: "r = \<lparr>res_query = query, res_timestamp = now,
              res_matches = Some (map (result_match_of (max_score (sort_matches pushed)))
                                   (take 10 (sort_matches pushed))),
              res_connections = Some (sort_connections (generate_connections (sort_matches pushed))),
              res_analysis = analysis_text (length (sort_matches pushed))
                               (length (generate_connections (sort_matches pushed))) query
                               (top_name (sort_matches pushed))\<rparr>"
    by (rule demoSearch_Resolved)
  have "\<forall>c\<in>set (generate_connections (sort_matches pushed)). 0 < strength c"
    using connect_pair_strength by (auto simp: generate_connections_set)
  then show ?thesis by (simp add: r sort_connections_set)
qed

section \<open>The cache of results\<close>











section \<open>The search-in-progress flag\<close>

lemma executeSearch_flag_cleared:
  assumes "fst (executeSearch query0 opts env st) \<noteq> NeverSettles" and "\<not> searchInProgress st"
  shows "\<not> searchInProgress (snd (executeSearch query0 opts env st))"
  using assms
  by (auto simp: executeSearch_def Let_def split: if_splits option.splits promise.splits sum.splits)

lemma executeSearch_never_settles:
  assumes "trim query0 \<noteq> []" and "\<not> isInitialized st"
    and "map_of (searchCache st) (cache_key (trim query0) (effective_depth opts st)) = None"
    and "\<exists>a\<in>set (database env). name a = None"
  shows "executeSearch query0 opts env st = (NeverSettles, st\<lparr>searchInProgress := True\<rparr>)"
proof -
  have "query0 \<noteq> []" using assms(1) by (auto simp: trim_def)
  moreover have "demoSearch (clock env) (database env) (trim query0) = NeverSettles"
    by (rule demoSearch_nameless[OF assms(4)])
  ultimately show ?thesis using assms(1-3) by (simp add: executeSearch_def Let_def)
qed

text \<open>
  C10 at its failing input. The claim reads: after every completed call the flag is
  false, and a failing search never leaves it stuck. A first call, without an API key,
  over a corpus with a nameless record raises in the timer callback: the call never
  settles and the \<open>finally\<close> block never runs. The flag is true from then on, also after
  a second call that completes by rejecting a blank query.
\<close>

theorem executeSearch_flag_stuck:
  "(let st1 = snd (executeSearch ''power'' no_options (demo_env [foucault, nameless]) (new_api None));
        second = executeSearch '' '' no_options (demo_env [foucault, nameless]) st1
    in \<not> isSearching (new_api None) \<and> isSearching st1 \<and>
       fst second = Rejected EmptySearchQuery \<and> isSearching (snd second))"
  by code_simp

section \<open>The network of a result\<close>

lemma first_occurrences_set: "set (first_occurrences xs) = set xs"
  by (induction xs) auto

lemma first_occurrences_distinct: "distinct (first_occurrences xs)"
  by (induction xs) (auto simp: first_occurrences_set)

lemma fold_add_key:
  "fold add_key xs ks = ks @ filter (\<lambda>x. x \<notin> set ks) (first_occurrences xs)"
proof (induction xs arbitrary: ks)
  case Nil
  then show ?case by simp
next
  case (Cons x xs)
  show ?case
  proof (cases "x \<in> set ks")
    case True
    then have "filter (\<lambda>y. y \<notin> set ks) (filter (\<lambda>y. y \<noteq> x) (first_occurrences xs))
                 = filter (\<lambda>y. y \<notin> set ks) (first_occurrences xs)"
      by (auto intro: filter_cong)
    with True Cons.IH[of ks] show ?thesis by (simp add: add_key_def)
  next
    case False
    have "filter (\<lambda>y. y \<notin> set (ks @ [x])) (first_occurrences xs)
            = filter (\<lambda>y. y \<notin> set ks) (filter (\<lambda>y. y \<noteq> x) (first_occurrences xs))"
      by (auto intro: filter_cong)
    with False Cons.IH[of "ks @ [x]"] show ?thesis by (simp add: add_key_def)
  qed
qed

lemma update_keys_add: "map fst (AList.update k v al) = add_key k (map fst al)"
  by (simp add: update_keys add_key_def)

lemma add_related_keys: "map fst (add_related k ns) = add_key k (map fst ns)"
proof -
  have "map_has ns k = (k \<in> set (map fst ns))"
    by (simp add: map_has_def map_of_eq_None_iff)
  then show ?thesis by (simp add: add_related_def update_keys_add) (simp add: add_key_def)
qed

lemma match_fold_keys:
  "map fst (fold (\<lambda>m ns. AList.update (match_name m) (match_node m) ns) ms ns)
     = fold add_key (map match_name ms) (map fst ns)"
  by (induction ms arbitrary: ns) (simp_all add: update_keys_add)

lemma related_fold_keys:
  "map fst (fold (\<lambda>c ns. add_related (academicB c) (add_related (academicA c) ns)) cs ns)
     = fold add_key (endpoints cs) (map fst ns)"
  by (induction cs arbitrary: ns) (simp_all add: endpoints_def add_related_keys)

lemma update_set: "set (AList.update k v al) \<subseteq> insert (k, v) (set al)"
  by (induction al) auto

lemma match_fold_inv:
  assumes "\<forall>(k, n)\<in>set ns. node_id n = k \<and> node_group n = ''match''"
  shows "\<forall>(k, n)\<in>set (fold (\<lambda>m ns. AList.update (match_name m) (match_node m) ns) ms ns).
           node_id n = k \<and> node_group n = ''match''"
  using assms
proof (induction ms arbitrary: ns)
  case Nil
  then show ?case by simp
next
  case (Cons m ms)
  have "\<forall>(k, n)\<in>set (AList.update (match_name m) (match_node m) ns).
          node_id n = k \<and> node_group n = ''match''"
    using Cons.prems update_set[of "match_name m" "match_node m" ns]
    by (auto simp: match_node_def)
  from Cons.IH[OF this] show ?case by simp
qed

lemma add_related_inv:
  assumes "\<forall>(k, n)\<in>set ns. node_id n = k \<and> node_group n = (if k \<in> M then ''match'' else ''related'')"
    and "M \<subseteq> set (map fst ns)"
  shows "(\<forall>(k, n)\<in>set (add_related i ns).
            node_id n = k \<and> node_group n = (if k \<in> M then ''match'' else ''related''))
         \<and> M \<subseteq> set (map fst (add_related i ns))"
proof (cases "map_has ns i")
  case True
  with assms show ?thesis by (simp add: add_related_def)
next
  case False
  then have "i \<notin> set (map fst ns)" by (simp add: map_has_def map_of_eq_None_iff)
  with assms(2) have "i \<notin> M" by blast
  then have "\<forall>(k, n)\<in>set (AList.update i (related_node i) ns).
          node_id n = k \<and> node_group n = (if k \<in> M then ''match'' else ''related'')"
    using assms(1) update_set[of i "related_node i" ns]
    by (auto simp: related_node_def)
  moreover have "M \<subseteq> set (map fst (AList.update i (related_node i) ns))"
    using assms(2) by (auto simp: update_keys)
  ultimately show ?thesis using False by (simp add: add_related_def)
qed

lemma related_fold_inv:
  assumes "\<forall>(k, n)\<in>set ns. node_id n = k \<and> node_group n = (if k \<in> M then ''match'' else ''related'')"
    and "M \<subseteq> set (map fst ns)"
  shows "\<forall>(k, n)\<in>set (fold (\<lambda>c ns. add_related (academicB c) (add_related (academicA c) ns)) cs ns).
            node_id n = k \<and> node_group n = (if k \<in> M then ''match'' else ''related'')"
  using assms
proof (induction cs arbitrary: ns)
  case Nil
  then show ?case by simp
next
  case (Cons c cs)
  from add_related_inv[OF Cons.prems, of "academicA c"]
  have a: "\<forall>(k, n)\<in>set (add_related (academicA c) ns).
            node_id n = k \<and> node_group n = (if k \<in> M then ''match'' else ''related'')"
    and a': "M \<subseteq> set (map fst (add_related (academicA c) ns))" by blast+
  from add_related_inv[OF a a', of "academicB c"]
  have b: "\<forall>(k, n)\<in>set (add_related (academicB c) (add_related (academicA c) ns)).
            node_id n = k \<and> node_group n = (if k \<in> M then ''match'' else ''related'')"
    and b': "M \<subseteq> set (map fst (add_related (academicB c) (add_related (academicA c) ns)))" by blast+
  from Cons.IH[OF b b'] show ?case by simp
qed

lemma ids_are_keys: "\<forall>(k, n)\<in>set ns. node_id n = k \<Longrightarrow> map node_id (map snd ns) = map fst ns"
  by (induction ns) auto

lemma convertToNetworkData_nodes:
  assumes "res_connections r = Some cs"
  shows "map node_id (nodes (convertToNetworkData (Some r)))
           = first_occurrences (match_names r @ endpoints cs)"
    and "\<forall>n\<in>set (nodes (convertToNetworkData (Some r))).
           node_group n = (if node_id n \<in> set (match_names r) then ''match'' else ''related'')"
proof -
  define nodes0 where "nodes0 = (case res_matches r of
                               None \<Rightarrow> []
                             | Some ms \<Rightarrow> fold (\<lambda>m ns. AList.update (match_name m) (match_node m) ns) ms [])"
  define nodes1 where "nodes1 = fold (\<lambda>c ns. add_related (academicB c) (add_related (academicA c) ns)) cs nodes0"
  have g: "nodes (convertToNetworkData (Some r)) = map snd nodes1"
    using assms by (simp add: convertToNetworkData_def nodes0_def nodes1_def)
  have keys0: "map fst nodes0 = fold add_key (match_names r) []"
    using match_fold_keys[of _ "[]"]
    by (simp add: nodes0_def match_names_def split: option.splits)
  have keys1: "map fst nodes1 = fold add_key (match_names r @ endpoints cs) []"
    by (simp add: nodes1_def related_fold_keys keys0)
  have inv0: "\<forall>(k, n)\<in>set nodes0. node_id n = k \<and> node_group n = ''match''"
  proof (cases "res_matches r")
    case None
    then show ?thesis by (simp add: nodes0_def)
  next
    case (Some ms)
    have "\<forall>(k, n)\<in>set []. node_id n = k \<and> node_group n = ''match''" by simp
    from match_fold_inv[OF this, of ms] show ?thesis by (simp add: nodes0_def Some)
  qed
  have set0: "set (map fst nodes0) = set (match_names r)"
    by (simp only: keys0 fold_add_key) (simp add: first_occurrences_set)
  have inv0': "\<forall>(k, n)\<in>set nodes0. node_id n = k \<and>
                 node_group n = (if k \<in> set (match_names r) then ''match'' else ''related'')"
  proof -
    have "k \<in> set (match_names r)" if "(k, n) \<in> set nodes0" for k n
      using that set0 by force
    with inv0 show ?thesis by auto
  qed
  have inv1: "\<forall>(k, n)\<in>set nodes1. node_id n = k \<and>
                 node_group n = (if k \<in> set (match_names r) then ''match'' else ''related'')"
  proof -
    have "set (match_names r) \<subseteq> set (map fst nodes0)" by (simp only: set0)
    from related_fold_inv[OF inv0' this] show ?thesis by (simp add: nodes1_def)
  qed
  then have ids: "map node_id (map snd nodes1) = map fst nodes1"
    by (intro ids_are_keys) auto
  show "map node_id (nodes (convertToNetworkData (Some r)))
           = first_occurrences (match_names r @ endpoints cs)"
    unfolding g ids keys1 fold_add_key by simp
  show "\<forall>n\<in>set (nodes (convertToNetworkData (Some r))).
           node_group n = (if node_id n \<in> set (match_names r) then ''match'' else ''related'')"
    using inv1 by (auto simp: g)
qed

lemma link_of_positive:
  "0 < strength c \<Longrightarrow>
     link_of c = \<lparr>source = academicA c, target = academicB c, link_value = strength c,
                  link_type = (if isDirectlyConnected c then ''direct'' else ''indirect'')\<rparr>"
  by (simp add: link_of_def)

text \<open>
  C7. For a result with connections, each of strength above zero (as every connection
  the search produces is): the nodes carry, once each and in order of first occurrence,
  the identifiers of the matches followed by the ends of the connections; a node is in
  group \<open>match\<close> when its identifier is a match's and in group \<open>related\<close> otherwise;
  and the links are the connections in their order, each with its two ends, its
  strength and \<open>direct\<close> or \<open>indirect\<close>.
\<close>

theorem convertToNetworkData_graph:
  assumes "res_connections r = Some cs" and "\<forall>c\<in>set cs. 0 < strength c"
  shows "(let g = convertToNetworkData (Some r); ids = map node_id (nodes g)
          in ids = first_occurrences (match_names r @ endpoints cs) \<and>
             distinct ids \<and>
             set ids = set (match_names r) \<union> academicA ` set cs \<union> academicB ` set cs \<and>
             (\<forall>n\<in>set (nodes g).
                node_group n = (if node_id n \<in> set (match_names r) then ''match'' else ''related'')) \<and>
             links g = map (\<lambda>c. \<lparr>source = academicA c, target = academicB c,
                                   link_value = strength c,
                                   link_type = (if isDirectlyConnected c then ''direct'' else ''indirect'')\<rparr>) cs)"
proof -
  let ?g = "convertToNetworkData (Some r)"
  have ids: "map node_id (nodes ?g) = first_occurrences (match_names r @ endpoints cs)"
    by (rule convertToNetworkData_nodes(1)[OF assms(1)])
  have ends: "set (endpoints cs) = academicA ` set cs \<union> academicB ` set cs"
    by (auto simp: endpoints_def)
  have "links ?g = map link_of cs"
    using assms(1) by (simp add: convertToNetworkData_def)
  also have "\<dots> = map (\<lambda>c. \<lparr>source = academicA c, target = academicB c,
                                   link_value = strength c,
                                   link_type = (if isDirectlyConnected c then ''direct'' else ''indirect'')\<rparr>) cs"
    using assms(2) by (intro map_cong refl link_of_positive) simp
  finally have lk: "links ?g = map (\<lambda>c. \<lparr>source = academicA c, target = academicB c,
                                   link_value = strength c,
                                   link_type = (if isDirectlyConnected c then ''direct'' else ''indirect'')\<rparr>) cs" .
  show ?thesis
    unfolding Let_def
    using convertToNetworkData_nodes(2)[OF assms(1)] lk
    by (simp add: ids first_occurrences_distinct first_occurrences_set ends Un_assoc)
qed

theorem convertToNetworkData_graph_witness:
  "res_connections sample_results = Some [sample_connection] \<and> 0 < strength sample_connection \<and>
   (let g = convertToNetworkData (Some sample_results); ids = map node_id (nodes g)
          in ids = first_occurrences (match_names sample_results @ endpoints [sample_connection]) \<and>
             distinct ids \<and>
             set ids = set (match_names sample_results) \<union> academicA ` set [sample_connection]
                         \<union> academicB ` set [sample_connection] \<and>
             (\<forall>n\<in>set (nodes g).
                node_group n = (if node_id n \<in> set (match_names sample_results) then ''match'' else ''related'')) \<and>
             links g = map (\<lambda>c. \<lparr>source = academicA c, target = academicB c,
                                   link_value = strength c,
                                   link_type = (if isDirectlyConnected c then ''direct'' else ''indirect'')\<rparr>)
                           [sample_connection]) \<and>
   convertToNetworkData (Some sample_results) =
     \<lparr>nodes = [\<lparr>node_id = Some ''michel-foucault'', node_group = ''match'', node_score = 3\<rparr>,
               \<lparr>node_id = Some ''judith-butler'', node_group = ''related'', node_score = 1\<rparr>],
      links = [\<lparr>source = Some ''michel-foucault'', target = Some ''judith-butler'',
                link_value = 7, link_type = ''direct''\<rparr>]\<rparr>"
proof -
  have c: "res_connections sample_results = Some [sample_connection]"
    by (simp add: sample_results_def)
  have s: "0 < strength sample_connection" by (simp add: sample_connection_def)
  then have all: "\<forall>c\<in>set [sample_connection]. 0 < strength c" by simp
  have v: "convertToNetworkData (Some sample_results) =
     \<lparr>nodes = [\<lparr>node_id = Some ''michel-foucault'', node_group = ''match'', node_score = 3\<rparr>,
               \<lparr>node_id = Some ''judith-butler'', node_group = ''related'', node_score = 1\<rparr>],
      links = [\<lparr>source = Some ''michel-foucault'', target = Some ''judith-butler'',
                link_value = 7, link_type = ''direct''\<rparr>]\<rparr>"
    by code_simp
  from convertToNetworkData_graph[OF c all] c s v show ?thesis by blast
qed

text \<open>
  C9. For a missing argument, and for a result without a \<open>connections\<close> field, the
  network is empty.
\<close>

theorem convertToNetworkData_missing:
  "convertToNetworkData None = \<lparr>nodes = [], links = []\<rparr> \<and>
   convertToNetworkData (Some (r\<lparr>res_connections := None\<rparr>)) = \<lparr>nodes = [], links = []\<rparr>"
  by (simp add: convertToNetworkData_def empty_network_def)

end
